theory Spec2Isabelle
  imports Main "HOL-Library.Sublist" "HOL-Library.AList"
begin

section \<open>Python values and outcomes\<close>

text \<open>
  The helpers of \<^verbatim>\<open>broker/helpers.py\<close> work on data loaded from JSON or YAML:
  \<^verbatim>\<open>None\<close>, booleans, integers, strings, lists and dictionaries with string keys.
  A dictionary is the list of its items in insertion order. Floats are left out.
  A character is a code point below 256.
\<close>

datatype pyval =
    PNone
  | PBool bool
  | PInt int
  | PStr string
  | PList "pyval list"
  | PDict "(string \<times> pyval) list"

text \<open>
  A call returns a value, raises an exception, or leaves the fragment of Python
  that is modelled here (\<open>Unmodelled\<close>: nothing is said about what Python does).
\<close>

datatype py_error = AttributeError | ValueError | IndexError | SyntaxError | RecursionError

datatype 'a res = Ok 'a | Raise py_error | Unmodelled

section \<open>Strings\<close>

text \<open>The quote and the backslash cannot be written inside a string literal.\<close>

definition squote :: char where
  "squote = CHR 0x27"

definition dquote :: char where
  "dquote = CHR 0x22"

definition backslash :: char where
  "backslash = CHR 0x5C"

text \<open>
  \<^verbatim>\<open>s.split(sep)\<close> for a non-empty separator: the pieces between the occurrences of
  \<open>sep\<close>, found from the left and not overlapping. Python raises ValueError on an
  empty separator; the callers below pass a comma or an operator token.
\<close>

function split :: "string \<Rightarrow> string \<Rightarrow> string list" where
  "split sep [] = [[]]"
| "split sep (c # cs) =
     (if sep \<noteq> [] \<and> prefix sep (c # cs)
      then [] # split sep (drop (length sep) (c # cs))
      else (case split sep cs of
              [] \<Rightarrow> [[c]]
            | p # ps \<Rightarrow> (c # p) # ps))"
  by pat_completeness auto
termination
  by (relation "measure (\<lambda>(sep, s). length s)") (auto simp: Suc_le_eq)

text \<open>\<^verbatim>\<open>sep.join(parts)\<close>.\<close>

fun join :: "string \<Rightarrow> string list \<Rightarrow> string" where
  "join sep [] = []"
| "join sep [p] = p"
| "join sep (p # q # ps) = p @ sep @ join sep (q # ps)"

text \<open>The decimal digits of \<^verbatim>\<open>str(n)\<close> for an integer.\<close>

definition digit :: "nat \<Rightarrow> char" where
  "digit n = ''0123456789abcdef'' ! (n mod 16)"

function str_nat :: "nat \<Rightarrow> string" where
  "str_nat n = (if n < 10 then [digit n] else str_nat (n div 10) @ [digit (n mod 10)])"
  by pat_completeness auto
termination
  by (relation "measure id") auto

definition str_int :: "int \<Rightarrow> string" where
  "str_int i = (if i < 0 then CHR ''-'' # str_nat (nat (- i)) else str_nat (nat i))"

text \<open>
  \<^verbatim>\<open>repr(s)\<close> for a string, as CPython's \<^verbatim>\<open>unicode_repr\<close> computes it: double quotes when
  the string has a single quote and no double quote, single quotes otherwise; the
  quote in use and the backslash are escaped; tab, newline and carriage return are
  written \<^verbatim>\<open>\t\<close>, \<^verbatim>\<open>\n\<close>, \<^verbatim>\<open>\r\<close>; a character that is not printable is written
  \<^verbatim>\<open>\xhh\<close>.
\<close>

definition printable :: "char \<Rightarrow> bool" where
  "printable c =
     (let n = (of_char c :: nat)
      in (32 \<le> n \<and> n < 127) \<or> (161 \<le> n \<and> n \<noteq> 173))"

definition hex_escape :: "char \<Rightarrow> string" where
  "hex_escape c =
     (let n = (of_char c :: nat)
      in [backslash, CHR ''x'', digit (n div 16), digit (n mod 16)])"

definition repr_char :: "char \<Rightarrow> char \<Rightarrow> string" where
  "repr_char q c =
     (if c = q \<or> c = backslash then [backslash, c]
      else if c = CHR 0x09 then [backslash, CHR ''t'']
      else if c = CHR 0x0A then [backslash, CHR ''n'']
      else if c = CHR 0x0D then [backslash, CHR ''r'']
      else if printable c then [c]
      else hex_escape c)"

definition repr_str :: "string \<Rightarrow> string" where
  "repr_str s =
     (let q = (if squote \<in> set s \<and> dquote \<notin> set s then dquote else squote)
      in q # concat (map (repr_char q) s) @ [q])"

text \<open>\<^verbatim>\<open>repr(v)\<close> and \<^verbatim>\<open>str(v)\<close>; \<^verbatim>\<open>format(v, "")\<close> is \<^verbatim>\<open>str(v)\<close> for all of these.\<close>

fun py_repr :: "pyval \<Rightarrow> string" where
  "py_repr PNone = ''None''"
| "py_repr (PBool b) = (if b then ''True'' else ''False'')"
| "py_repr (PInt i) = str_int i"
| "py_repr (PStr s) = repr_str s"
| "py_repr (PList vs) = ''['' @ join '', '' (map py_repr vs) @ '']''"
| "py_repr (PDict kvs) =
     ''{'' @ join '', '' (map (\<lambda>kv. repr_str (fst kv) @ '': '' @ py_repr (snd kv)) kvs) @ ''}''"

definition py_str :: "pyval \<Rightarrow> string" where
  "py_str v = (case v of PStr s \<Rightarrow> s | _ \<Rightarrow> py_repr v)"

section \<open>String formatting and evaluation\<close>

text \<open>
  \<^verbatim>\<open>template.format(**kw)\<close> for templates whose fields are plain names:
  \<^verbatim>\<open>{name}\<close> is replaced by the keyword's string, which is not scanned again;
  \<^verbatim>\<open>{{\<close> and \<^verbatim>\<open>}}\<close> stand for one brace. A field that is never closed and a single
  closing brace raise ValueError. Conversions, format specifications, attribute
  and index lookups and missing keywords are outside the model.
\<close>

definition field_name_char :: "char \<Rightarrow> bool" where
  "field_name_char c = (c \<notin> set ''!:.[]{}'')"

function py_format :: "string \<Rightarrow> (string \<times> string) list \<Rightarrow> string res" where
  "py_format [] kw = Ok []"
| "py_format (c # cs) kw =
     (if c = CHR ''{'' then
        (if cs \<noteq> [] \<and> hd cs = CHR ''{'' then
           (case py_format (tl cs) kw of Ok r \<Rightarrow> Ok (CHR ''{'' # r) | Raise e \<Rightarrow> Raise e
            | Unmodelled \<Rightarrow> Unmodelled)
         else
           (let name = takeWhile (\<lambda>x. x \<noteq> CHR ''}'') cs;
                rest = dropWhile (\<lambda>x. x \<noteq> CHR ''}'') cs
            in if rest = [] then Raise ValueError
               else if \<not> list_all field_name_char name then Unmodelled
               else (case map_of kw name of
                       None \<Rightarrow> Unmodelled
                     | Some v \<Rightarrow>
                         (case py_format (tl rest) kw of Ok r \<Rightarrow> Ok (v @ r)
                          | Raise e \<Rightarrow> Raise e | Unmodelled \<Rightarrow> Unmodelled))))
      else if c = CHR ''}'' then
        (if cs \<noteq> [] \<and> hd cs = CHR ''}'' then
           (case py_format (tl cs) kw of Ok r \<Rightarrow> Ok (CHR ''}'' # r) | Raise e \<Rightarrow> Raise e
            | Unmodelled \<Rightarrow> Unmodelled)
         else Raise ValueError)
      else (case py_format cs kw of Ok r \<Rightarrow> Ok (c # r) | Raise e \<Rightarrow> Raise e
            | Unmodelled \<Rightarrow> Unmodelled))"
  by pat_completeness auto
termination
proof (relation "measure (\<lambda>(t, kw). length t)")
  fix c :: char and cs :: string and kw :: "(string \<times> string) list" and x xa
  assume "xa = dropWhile (\<lambda>x. x \<noteq> CHR ''}'') cs"
  moreover have "length (dropWhile (\<lambda>x. x \<noteq> CHR ''}'') cs) \<le> length cs"
    by (rule length_dropWhile_le)
  ultimately show "((tl xa, kw), c # cs, kw) \<in> measure (\<lambda>(t, kw). length t)"
    by simp
qed auto

text \<open>
  \<^verbatim>\<open>eval(source)\<close> on the expressions the filter templates produce. A string literal
  is a single quote, a body without quote, backslash, line break or NUL, and a
  single quote; the body is then the string's value.
\<close>

definition literal_safe :: "char \<Rightarrow> bool" where
  "literal_safe c = (c \<notin> {squote, backslash, CHR 0x0A, CHR 0x0D, CHR 0x00})"

definition lit :: "string \<Rightarrow> (string \<times> string) option" where
  "lit e =
     (case e of
        [] \<Rightarrow> None
      | c # cs \<Rightarrow>
          (let body = takeWhile (\<lambda>x. x \<noteq> squote) cs;
               rest = dropWhile (\<lambda>x. x \<noteq> squote) cs
           in if c = squote \<and> rest \<noteq> [] \<and> list_all literal_safe body
              then Some (body, tl rest) else None))"

text \<open>
  The comparisons: \<^verbatim>\<open>'a' in 'b'\<close>, \<^verbatim>\<open>'a' not in 'b'\<close>, \<^verbatim>\<open>'a' == 'b'\<close>, \<^verbatim>\<open>'a' != 'b'\<close>,
  \<^verbatim>\<open>'a'.startswith('b')\<close>, \<^verbatim>\<open>'a'.endswith('b')\<close>, each with nothing after it.
\<close>

definition second_lit :: "string \<Rightarrow> string \<Rightarrow> string option" where
  "second_lit r closing =
     (case lit r of
        None \<Rightarrow> None
      | Some (b, r') \<Rightarrow> if r' = closing then Some b else None)"

definition parse_cmp :: "string \<Rightarrow> bool option" where
  "parse_cmp e =
     (case lit e of
        None \<Rightarrow> None
      | Some (a, r) \<Rightarrow>
          if prefix '' in '' r then
            map_option (\<lambda>b. sublist a b) (second_lit (drop 4 r) [])
          else if prefix '' not in '' r then
            map_option (\<lambda>b. \<not> sublist a b) (second_lit (drop 8 r) [])
          else if prefix '' == '' r then
            map_option (\<lambda>b. a = b) (second_lit (drop 4 r) [])
          else if prefix '' != '' r then
            map_option (\<lambda>b. a \<noteq> b) (second_lit (drop 4 r) [])
          else if prefix ''.startswith('' r then
            map_option (\<lambda>b. prefix b a) (second_lit (drop 12 r) '')'')
          else if prefix ''.endswith('' r then
            map_option (\<lambda>b. suffix b a) (second_lit (drop 10 r) '')'')
          else None)"

definition parse_test :: "string \<Rightarrow> bool option" where
  "parse_test e =
     (if prefix ''not '' e then map_option Not (parse_cmp (drop 4 e)) else parse_cmp e)"

text \<open>
  A source that certainly does not compile: it is short (at most 64 characters,
  far from any limit of the parser), it is made of letters, spaces, dots,
  parentheses, \<^verbatim>\<open>=\<close>, \<^verbatim>\<open>!\<close> and single quotes, no two quotes are adjacent (so every
  string literal is single-quoted and not empty) and the number of quotes is odd:
  the last literal is never closed. Every other source that is not one of the
  comparisons above is outside the model.
\<close>

definition source_char :: "char \<Rightarrow> bool" where
  "source_char c =
     (c \<in> set ''abcdefghijklmnopqrstuvwxyzABCDEFGHIJKLMNOPQRSTUVWXYZ .()=!'' \<or> c = squote)"

fun adjacent_quotes :: "string \<Rightarrow> bool" where
  "adjacent_quotes (a # b # cs) = ((a = squote \<and> b = squote) \<or> adjacent_quotes (b # cs))"
| "adjacent_quotes _ = False"

definition unterminated :: "string \<Rightarrow> bool" where
  "unterminated e =
     (length e \<le> 64 \<and> list_all source_char e \<and> \<not> adjacent_quotes e
      \<and> odd (length (filter (\<lambda>c. c = squote) e)))"

definition py_eval :: "string \<Rightarrow> bool res" where
  "py_eval e =
     (case parse_test e of
        Some b \<Rightarrow> Ok b
      | None \<Rightarrow> if unterminated e then Raise SyntaxError else Unmodelled)"

section \<open>classify\_filter\<close>

text \<open>\<^verbatim>\<open>FilterTest = namedtuple("FilterTest", "haystack needle test")\<close>.\<close>

record FilterTest =
  haystack :: string
  needle :: string
  test :: string

text \<open>
  What \<^verbatim>\<open>classify_filter\<close> returns: \<^verbatim>\<open>None\<close> when the loop over the table ends without
  a match, a \<^verbatim>\<open>FilterTest\<close>, or the list of what it returns on each clause.
\<close>

datatype classified = FNone | FTest FilterTest | FList "classified list"

definition quoted :: "string \<Rightarrow> string" where
  "quoted s = squote # s @ [squote]"

text \<open>The dictionary \<^verbatim>\<open>tests\<close>, in the order it is written.\<close>

definition tests :: "(string \<times> string) list" where
  "tests =
     [(''!<'', quoted ''{needle}'' @ '' not in '' @ quoted ''{haystack}''),
      (''<'', quoted ''{needle}'' @ '' in '' @ quoted ''{haystack}''),
      (''!='', quoted ''{haystack}'' @ '' != '' @ quoted ''{needle}''),
      (''='', quoted ''{haystack}'' @ '' == '' @ quoted ''{needle}''),
      (''!{'', ''not '' @ quoted ''{haystack}'' @ ''.startswith('' @ quoted ''{needle}'' @ '')''),
      (''{'', quoted ''{haystack}'' @ ''.startswith('' @ quoted ''{needle}'' @ '')''),
      (''!}'', ''not '' @ quoted ''{haystack}'' @ ''.endswith('' @ quoted ''{needle}'' @ '')''),
      (''}'', quoted ''{haystack}'' @ ''.endswith('' @ quoted ''{needle}'' @ '')'')]"

text \<open>
  The loop \<^verbatim>\<open>for cond, test in tests.items()\<close>: at the first token that occurs in the
  string, \<^verbatim>\<open>k, v = filter_string.split(cond)\<close> raises ValueError unless the split has
  exactly two pieces; when no token occurs the function falls off its end.
\<close>

fun classify_scan :: "(string \<times> string) list \<Rightarrow> string \<Rightarrow> classified res" where
  "classify_scan [] filter_string = Ok FNone"
| "classify_scan ((cond, tst) # rest) filter_string =
     (if sublist cond filter_string then
        (case split cond filter_string of
           [k, v] \<Rightarrow> Ok (FTest \<lparr>haystack = k, needle = v, test = tst\<rparr>)
         | _ \<Rightarrow> Raise ValueError)
      else classify_scan rest filter_string)"

text \<open>A list comprehension stops at the first element whose evaluation raises.\<close>

fun collect :: "'a res list \<Rightarrow> 'a list res" where
  "collect [] = Ok []"
| "collect (r # rs) =
     (case r of
        Ok x \<Rightarrow> (case collect rs of Ok xs \<Rightarrow> Ok (x # xs) | Raise e \<Rightarrow> Raise e
                 | Unmodelled \<Rightarrow> Unmodelled)
      | Raise e \<Rightarrow> Raise e
      | Unmodelled \<Rightarrow> Unmodelled)"

lemma split_comma_free: "p \<in> set (split [c] s) \<Longrightarrow> c \<notin> set p"
proof (induction "[c]" s arbitrary: p rule: split.induct)
  case 1
  then show ?case by simp
next
  case (2 d ds)
  show ?case
  proof (cases "d = c")
    case True
    with 2 show ?thesis by auto
  next
    case False
    with 2 show ?thesis by (cases "split [c] ds") auto
  qed
qed

lemma sublist_single: "sublist [c] s \<longleftrightarrow> c \<in> set s"
  by (induction s) (auto simp: sublist_Cons_right)

function classify_filter :: "string \<Rightarrow> classified res" where
  "classify_filter filter_string =
     (if sublist '','' filter_string then
        (case collect (map classify_filter (split '','' filter_string)) of
           Ok fs \<Rightarrow> Ok (FList fs)
         | Raise e \<Rightarrow> Raise e
         | Unmodelled \<Rightarrow> Unmodelled)
      else classify_scan tests filter_string)"
  by pat_completeness auto
termination
proof (relation "measure (\<lambda>s. if sublist '','' s then 1 else 0)")
  fix filter_string p
  assume "sublist '','' filter_string" and "p \<in> set (split '','' filter_string)"
  then show "(p, filter_string) \<in> measure (\<lambda>s. if sublist '','' s then 1 else 0)"
    using split_comma_free [of p "CHR '',''" filter_string] by (simp add: sublist_single)
qed simp

section \<open>results\_filter and inventory\_filter\<close>

text \<open>\<^verbatim>\<open>if not isinstance(resolved_filter, list): resolved_filter = [resolved_filter]\<close>.\<close>

definition resolve :: "classified \<Rightarrow> classified list" where
  "resolve c = (case c of FList fs \<Rightarrow> fs | _ \<Rightarrow> [c])"

text \<open>\<^verbatim>\<open>eval(rf.test.format(haystack=value, needle=rf.needle))\<close>.\<close>

definition eval_test :: "FilterTest \<Rightarrow> pyval \<Rightarrow> bool res" where
  "eval_test rf v =
     (case py_format (test rf) [(''haystack'', py_str v), (''needle'', needle rf)] of
        Ok e \<Rightarrow> py_eval e
      | Raise x \<Rightarrow> Raise x
      | Unmodelled \<Rightarrow> Unmodelled)"

text \<open>
  The comprehension of \<^verbatim>\<open>results_filter\<close>. Reading \<^verbatim>\<open>rf.test\<close> of \<^verbatim>\<open>None\<close> (or of a
  list) raises AttributeError.
\<close>

fun results_evals :: "classified list \<Rightarrow> pyval \<Rightarrow> bool list res" where
  "results_evals [] r = Ok []"
| "results_evals (rf # rfs) r =
     (case rf of
        FTest t \<Rightarrow>
          (case eval_test t r of
             Ok b \<Rightarrow> (case results_evals rfs r of Ok bs \<Rightarrow> Ok (b # bs) | Raise e \<Rightarrow> Raise e
                      | Unmodelled \<Rightarrow> Unmodelled)
           | Raise e \<Rightarrow> Raise e
           | Unmodelled \<Rightarrow> Unmodelled)
      | _ \<Rightarrow> Raise AttributeError)"

text \<open>\<^verbatim>\<open>if eval_list and all(eval_list)\<close>.\<close>

definition accepted :: "bool list \<Rightarrow> bool" where
  "accepted eval_list = (eval_list \<noteq> [] \<and> list_all id eval_list)"

fun results_loop :: "classified list \<Rightarrow> pyval list \<Rightarrow> pyval list res" where
  "results_loop resolved [] = Ok []"
| "results_loop resolved (r # rs) =
     (case results_evals resolved r of
        Ok eval_list \<Rightarrow>
          (case results_loop resolved rs of
             Ok matching \<Rightarrow> Ok (if accepted eval_list then r # matching else matching)
           | Raise e \<Rightarrow> Raise e
           | Unmodelled \<Rightarrow> Unmodelled)
      | Raise e \<Rightarrow> Raise e
      | Unmodelled \<Rightarrow> Unmodelled)"

definition results_filter :: "pyval list \<Rightarrow> string \<Rightarrow> pyval list res" where
  "results_filter results raw_filter =
     (case classify_filter raw_filter of
        Ok c \<Rightarrow> results_loop (resolve c) results
      | Raise e \<Rightarrow> Raise e
      | Unmodelled \<Rightarrow> Unmodelled)"

section \<open>flatten\_dict\<close>

text \<open>
  \<^verbatim>\<open>dict(flattened)\<close>: a later pair with a key already present replaces the value and
  keeps the key's place.
\<close>

definition py_dict :: "(string \<times> pyval) list \<Rightarrow> (string \<times> pyval) list" where
  "py_dict pairs = fold (\<lambda>kv d. AList.update (fst kv) (snd kv) d) pairs []"

text \<open>
  \<^verbatim>\<open>for index in to_remove: del value[index]\<close>: each deletion shifts the elements
  behind it, and an index past the end raises IndexError.
\<close>

fun del_indices :: "nat list \<Rightarrow> pyval list \<Rightarrow> pyval list res" where
  "del_indices [] v = Ok v"
| "del_indices (i # is) v =
     (if i < length v then del_indices is (take i v @ drop (Suc i) v) else Raise IndexError)"

definition new_key :: "string \<Rightarrow> string \<Rightarrow> string \<Rightarrow> string" where
  "new_key parent_key separator key =
     (if parent_key \<noteq> [] then parent_key @ separator @ key else key)"

text \<open>
  \<open>flatten_items\<close> is the loop over \<^verbatim>\<open>nested_dict.items()\<close> and \<open>flatten_elems\<close> the loop
  over \<^verbatim>\<open>enumerate(value)\<close>; both carry the list \<^verbatim>\<open>flattened\<close>, the second also
  \<^verbatim>\<open>to_remove\<close>.
\<close>

fun flatten_dict :: "(string \<times> pyval) list \<Rightarrow> string \<Rightarrow> string \<Rightarrow> (string \<times> pyval) list res"
and flatten_items ::
  "(string \<times> pyval) list \<Rightarrow> string \<Rightarrow> string \<Rightarrow> (string \<times> pyval) list
    \<Rightarrow> (string \<times> pyval) list res"
and flatten_elems ::
  "pyval list \<Rightarrow> nat \<Rightarrow> string \<Rightarrow> string \<Rightarrow> (string \<times> pyval) list \<Rightarrow> nat list
    \<Rightarrow> ((string \<times> pyval) list \<times> nat list) res"
where
  "flatten_dict nested_dict parent_key separator =
     (case flatten_items nested_dict parent_key separator [] of
        Ok flattened \<Rightarrow> Ok (py_dict flattened)
      | Raise e \<Rightarrow> Raise e
      | Unmodelled \<Rightarrow> Unmodelled)"
| "flatten_items [] parent_key separator flattened = Ok flattened"
| "flatten_items ((key, PDict d) # rest) parent_key separator flattened =
     (case flatten_dict d (new_key parent_key separator key) separator of
        Ok sub \<Rightarrow> flatten_items rest parent_key separator (flattened @ sub)
      | Raise e \<Rightarrow> Raise e
      | Unmodelled \<Rightarrow> Unmodelled)"
| "flatten_items ((key, PList l) # rest) parent_key separator flattened =
     (case flatten_elems l 0 (new_key parent_key separator key) separator flattened [] of
        Ok (flattened', to_remove) \<Rightarrow>
          (case del_indices to_remove l of
             Ok l' \<Rightarrow>
               flatten_items rest parent_key separator
                 (flattened' @ [(new_key parent_key separator key, PList l')])
           | Raise e \<Rightarrow> Raise e
           | Unmodelled \<Rightarrow> Unmodelled)
      | Raise e \<Rightarrow> Raise e
      | Unmodelled \<Rightarrow> Unmodelled)"
| "flatten_items ((key, v) # rest) parent_key separator flattened =
     flatten_items rest parent_key separator
       (flattened @ [(new_key parent_key separator key, v)])"
| "flatten_elems [] index nk separator flattened to_remove = Ok (flattened, to_remove)"
| "flatten_elems (PDict d # vals) index nk separator flattened to_remove =
     (case flatten_dict d nk separator of
        Ok sub \<Rightarrow>
          flatten_elems vals (Suc index) nk separator (flattened @ sub) (to_remove @ [index])
      | Raise e \<Rightarrow> Raise e
      | Unmodelled \<Rightarrow> Unmodelled)"
| "flatten_elems (v # vals) index nk separator flattened to_remove =
     flatten_elems vals (Suc index) nk separator flattened to_remove"

section \<open>inventory\_filter\<close>

text \<open>
  The comprehension of \<^verbatim>\<open>inventory_filter\<close>: the condition
  \<^verbatim>\<open>rf.haystack in flattened_host\<close> is read first, so \<^verbatim>\<open>None\<close> raises AttributeError
  there; a predicate whose key is missing is skipped.
\<close>

fun inventory_evals :: "classified list \<Rightarrow> (string \<times> pyval) list \<Rightarrow> bool list res" where
  "inventory_evals [] flattened_host = Ok []"
| "inventory_evals (rf # rfs) flattened_host =
     (case rf of
        FTest t \<Rightarrow>
          (case map_of flattened_host (haystack t) of
             None \<Rightarrow> inventory_evals rfs flattened_host
           | Some v \<Rightarrow>
               (case eval_test t v of
                  Ok b \<Rightarrow>
                    (case inventory_evals rfs flattened_host of
                       Ok bs \<Rightarrow> Ok (b # bs)
                     | Raise e \<Rightarrow> Raise e
                     | Unmodelled \<Rightarrow> Unmodelled)
                | Raise e \<Rightarrow> Raise e
                | Unmodelled \<Rightarrow> Unmodelled))
      | _ \<Rightarrow> Raise AttributeError)"

text \<open>One host: flatten it with separator \<^verbatim>\<open>"."\<close>, then evaluate.\<close>

definition host_evals :: "classified list \<Rightarrow> (string \<times> pyval) list \<Rightarrow> bool list res" where
  "host_evals resolved host =
     (case flatten_dict host [] ''.'' of
        Ok flattened_host \<Rightarrow> inventory_evals resolved flattened_host
      | Raise e \<Rightarrow> Raise e
      | Unmodelled \<Rightarrow> Unmodelled)"

fun inventory_loop ::
  "classified list \<Rightarrow> (string \<times> pyval) list list \<Rightarrow> (string \<times> pyval) list list res" where
  "inventory_loop resolved [] = Ok []"
| "inventory_loop resolved (host # hosts) =
     (case host_evals resolved host of
        Ok eval_list \<Rightarrow>
          (case inventory_loop resolved hosts of
             Ok matching \<Rightarrow> Ok (if accepted eval_list then host # matching else matching)
           | Raise e \<Rightarrow> Raise e
           | Unmodelled \<Rightarrow> Unmodelled)
      | Raise e \<Rightarrow> Raise e
      | Unmodelled \<Rightarrow> Unmodelled)"

definition inventory_filter ::
  "(string \<times> pyval) list list \<Rightarrow> string \<Rightarrow> (string \<times> pyval) list list res" where
  "inventory_filter inventory raw_filter =
     (case classify_filter raw_filter of
        Ok c \<Rightarrow> inventory_loop (resolve c) inventory
      | Raise e \<Rightarrow> Raise e
      | Unmodelled \<Rightarrow> Unmodelled)"

section \<open>Formatting and evaluating the eight tests\<close>

declare classify_filter.simps [simp del] str_nat.simps [simp del]

lemma format_tests:
  "py_format (quoted ''{needle}'' @ '' not in '' @ quoted ''{haystack}'')
     [(''haystack'', h), (''needle'', n)] = Ok (quoted n @ '' not in '' @ quoted h)"
  "py_format (quoted ''{needle}'' @ '' in '' @ quoted ''{haystack}'')
     [(''haystack'', h), (''needle'', n)] = Ok (quoted n @ '' in '' @ quoted h)"
  "py_format (quoted ''{haystack}'' @ '' != '' @ quoted ''{needle}'')
     [(''haystack'', h), (''needle'', n)] = Ok (quoted h @ '' != '' @ quoted n)"
  "py_format (quoted ''{haystack}'' @ '' == '' @ quoted ''{needle}'')
     [(''haystack'', h), (''needle'', n)] = Ok (quoted h @ '' == '' @ quoted n)"
  "py_format (''not '' @ quoted ''{haystack}'' @ ''.startswith('' @ quoted ''{needle}'' @ '')'')
     [(''haystack'', h), (''needle'', n)]
   = Ok (''not '' @ quoted h @ ''.startswith('' @ quoted n @ '')'')"
  "py_format (quoted ''{haystack}'' @ ''.startswith('' @ quoted ''{needle}'' @ '')'')
     [(''haystack'', h), (''needle'', n)] = Ok (quoted h @ ''.startswith('' @ quoted n @ '')'')"
  "py_format (''not '' @ quoted ''{haystack}'' @ ''.endswith('' @ quoted ''{needle}'' @ '')'')
     [(''haystack'', h), (''needle'', n)]
   = Ok (''not '' @ quoted h @ ''.endswith('' @ quoted n @ '')'')"
  "py_format (quoted ''{haystack}'' @ ''.endswith('' @ quoted ''{needle}'' @ '')'')
     [(''haystack'', h), (''needle'', n)] = Ok (quoted h @ ''.endswith('' @ quoted n @ '')'')"
  by (simp_all add: quoted_def squote_def field_name_char_def)

lemma lit_quoted:
  assumes "list_all literal_safe a"
  shows "lit (quoted a @ r) = Some (a, r)"
proof -
  have no: "\<forall>x\<in>set a. x \<noteq> squote"
    using assms by (auto simp: list_all_iff literal_safe_def)
  have t: "takeWhile (\<lambda>x. x \<noteq> squote) (a @ squote # r) = a"
    using no by (simp add: takeWhile_append2)
  have d: "dropWhile (\<lambda>x. x \<noteq> squote) (a @ squote # r) = squote # r"
    using no by (simp add: dropWhile_append2)
  show ?thesis
    using assms by (simp add: lit_def quoted_def t d)
qed

lemma second_lit_quoted:
  "list_all literal_safe b \<Longrightarrow> second_lit (quoted b @ r) r = Some b"
  by (simp add: second_lit_def lit_quoted)

lemma second_lit_quoted_end:
  "list_all literal_safe b \<Longrightarrow> second_lit (quoted b) [] = Some b"
  using second_lit_quoted [of b "[]"] by simp

lemma parse_cmp_shapes:
  assumes "list_all literal_safe a" and "list_all literal_safe b"
  shows "parse_cmp (quoted a @ '' not in '' @ quoted b) = Some (\<not> sublist a b)"
    and "parse_cmp (quoted a @ '' in '' @ quoted b) = Some (sublist a b)"
    and "parse_cmp (quoted a @ '' != '' @ quoted b) = Some (a \<noteq> b)"
    and "parse_cmp (quoted a @ '' == '' @ quoted b) = Some (a = b)"
    and "parse_cmp (quoted a @ ''.startswith('' @ quoted b @ '')'') = Some (prefix b a)"
    and "parse_cmp (quoted a @ ''.endswith('' @ quoted b @ '')'') = Some (suffix b a)"
  using assms
  by (simp_all add: parse_cmp_def lit_quoted second_lit_quoted second_lit_quoted_end)

lemma parse_test_quoted: "parse_test (quoted a @ r) = parse_cmp (quoted a @ r)"
  by (simp add: parse_test_def quoted_def squote_def)

lemma parse_test_not: "parse_test (''not '' @ r) = map_option Not (parse_cmp r)"
  by (simp add: parse_test_def)

lemma py_eval_shapes:
  assumes "list_all literal_safe a" and "list_all literal_safe b"
  shows "py_eval (quoted a @ '' not in '' @ quoted b) = Ok (\<not> sublist a b)"
    and "py_eval (quoted a @ '' in '' @ quoted b) = Ok (sublist a b)"
    and "py_eval (quoted a @ '' != '' @ quoted b) = Ok (a \<noteq> b)"
    and "py_eval (quoted a @ '' == '' @ quoted b) = Ok (a = b)"
    and "py_eval (''not '' @ quoted a @ ''.startswith('' @ quoted b @ '')'') = Ok (\<not> prefix b a)"
    and "py_eval (quoted a @ ''.startswith('' @ quoted b @ '')'') = Ok (prefix b a)"
    and "py_eval (''not '' @ quoted a @ ''.endswith('' @ quoted b @ '')'') = Ok (\<not> suffix b a)"
    and "py_eval (quoted a @ ''.endswith('' @ quoted b @ '')'') = Ok (suffix b a)"
  unfolding py_eval_def parse_test_quoted parse_test_not parse_cmp_shapes [OF assms]
  by simp_all

text \<open>
  What each entry of the table computes on a value whose string form, like the
  needle, can stand between single quotes.
\<close>

definition holds :: "string \<Rightarrow> string \<Rightarrow> string \<Rightarrow> bool" where
  "holds cond h n =
     (if cond = ''!<'' then \<not> sublist n h
      else if cond = ''<'' then sublist n h
      else if cond = ''!='' then h \<noteq> n
      else if cond = ''='' then h = n
      else if cond = ''!{'' then \<not> prefix n h
      else if cond = ''{'' then prefix n h
      else if cond = ''!}'' then \<not> suffix n h
      else suffix n h)"

lemma eval_test_ok:
  assumes "py_format tst [(''haystack'', py_str v), (''needle'', n)] = Ok e" and "py_eval e = Ok b"
  shows "eval_test \<lparr>haystack = k, needle = n, test = tst\<rparr> v = Ok b"
  using assms by (simp add: eval_test_def)

lemma eval_test_entries:
  assumes "list_all literal_safe (py_str v)" and "list_all literal_safe n"
  shows "list_all (\<lambda>entry. eval_test \<lparr>haystack = k, needle = n, test = snd entry\<rparr> v
                     = Ok (holds (fst entry) (py_str v) n)) tests"
proof -
  note hn = py_eval_shapes [OF assms(1,2)]
  note nh = py_eval_shapes [OF assms(2,1)]
  have "eval_test \<lparr>haystack = k, needle = n,
          test = quoted ''{needle}'' @ '' not in '' @ quoted ''{haystack}''\<rparr> v
        = Ok (holds ''!<'' (py_str v) n)"
    by (rule eval_test_ok [OF format_tests(1)], unfold nh, simp add: holds_def)
  moreover have "eval_test \<lparr>haystack = k, needle = n,
          test = quoted ''{needle}'' @ '' in '' @ quoted ''{haystack}''\<rparr> v
        = Ok (holds ''<'' (py_str v) n)"
    by (rule eval_test_ok [OF format_tests(2)], unfold nh, simp add: holds_def)
  moreover have "eval_test \<lparr>haystack = k, needle = n,
          test = quoted ''{haystack}'' @ '' != '' @ quoted ''{needle}''\<rparr> v
        = Ok (holds ''!='' (py_str v) n)"
    by (rule eval_test_ok [OF format_tests(3)], unfold hn, simp add: holds_def)
  moreover have "eval_test \<lparr>haystack = k, needle = n,
          test = quoted ''{haystack}'' @ '' == '' @ quoted ''{needle}''\<rparr> v
        = Ok (holds ''='' (py_str v) n)"
    by (rule eval_test_ok [OF format_tests(4)], unfold hn, simp add: holds_def)
  moreover have "eval_test \<lparr>haystack = k, needle = n,
          test = ''not '' @ quoted ''{haystack}'' @ ''.startswith('' @ quoted ''{needle}'' @ '')''\<rparr> v
        = Ok (holds ''!{'' (py_str v) n)"
    by (rule eval_test_ok [OF format_tests(5)], unfold hn, simp add: holds_def)
  moreover have "eval_test \<lparr>haystack = k, needle = n,
          test = quoted ''{haystack}'' @ ''.startswith('' @ quoted ''{needle}'' @ '')''\<rparr> v
        = Ok (holds ''{'' (py_str v) n)"
    by (rule eval_test_ok [OF format_tests(6)], unfold hn, simp add: holds_def)
  moreover have "eval_test \<lparr>haystack = k, needle = n,
          test = ''not '' @ quoted ''{haystack}'' @ ''.endswith('' @ quoted ''{needle}'' @ '')''\<rparr> v
        = Ok (holds ''!}'' (py_str v) n)"
    by (rule eval_test_ok [OF format_tests(7)], unfold hn, simp add: holds_def)
  moreover have "eval_test \<lparr>haystack = k, needle = n,
          test = quoted ''{haystack}'' @ ''.endswith('' @ quoted ''{needle}'' @ '')''\<rparr> v
        = Ok (holds ''}'' (py_str v) n)"
    by (rule eval_test_ok [OF format_tests(8)], unfold hn, simp add: holds_def)
  ultimately show ?thesis
    unfolding tests_def by (simp only: list.pred_inject fst_conv snd_conv simp_thms)
qed

lemma eval_test_table:
  assumes "(cond, tst) \<in> set tests"
    and "list_all literal_safe (py_str v)" and "list_all literal_safe n"
  shows "eval_test \<lparr>haystack = k, needle = n, test = tst\<rparr> v = Ok (holds cond (py_str v) n)"
  using eval_test_entries [OF assms(2,3), of k] assms(1)
  unfolding list_all_iff by fastforce

section \<open>Properties of split and of the table scan\<close>

lemma split_nonempty: "split sep s \<noteq> []"
  by (induction sep s rule: split.induct) (auto split: list.splits)

lemma split_head_prefix: "split sep s = q # qs \<Longrightarrow> prefix q s"
  by (induction sep s arbitrary: q qs rule: split.induct) (auto split: if_splits list.splits)

lemma split_piece_sublist: "p \<in> set (split sep s) \<Longrightarrow> sublist p s"
proof (induction sep s arbitrary: p rule: split.induct)
  case (1 sep)
  then show ?case by simp
next
  case (2 sep c cs)
  show ?case
  proof (cases "sep \<noteq> [] \<and> prefix sep (c # cs)")
    case True
    with 2 have "p = [] \<or> sublist p (drop (length sep) (c # cs))" by auto
    then show ?thesis
      by (metis sublist_Nil_left sublist_drop sublist_order.order_trans)
  next
    case False
    obtain q qs where q: "split sep cs = q # qs"
      using split_nonempty [of sep cs] by (cases "split sep cs") auto
    with False 2(3) have "p = c # q \<or> p \<in> set qs" by auto
    then show ?thesis
    proof
      assume "p = c # q"
      then show ?thesis using split_head_prefix [OF q] by (simp add: prefix_imp_sublist)
    next
      assume "p \<in> set qs"
      then have "sublist p cs" using 2(2) [OF False] q by simp
      then show ?thesis by (simp add: sublist_Cons_right)
    qed
  qed
qed

lemma classify_scan_no_token:
  "\<forall>entry\<in>set tbl. \<not> sublist (fst entry) s \<Longrightarrow> classify_scan tbl s = Ok FNone"
  by (induction tbl) auto

lemma collect_all_ok: "collect (map (\<lambda>x. Ok (f x)) xs) = Ok (map f xs)"
  by (induction xs) auto

lemma resolve_no_token:
  assumes "\<forall>entry\<in>set tests. \<not> sublist (fst entry) s"
  shows "\<exists>c rest. classify_filter s = Ok c \<and> resolve c = FNone # rest"
proof (cases "sublist '','' s")
  case False
  then have "classify_filter s = Ok FNone"
    using assms by (simp add: classify_filter.simps classify_scan_no_token)
  then show ?thesis by (simp add: resolve_def)
next
  case True
  have each: "classify_filter p = Ok FNone" if "p \<in> set (split '','' s)" for p
  proof -
    have "\<not> sublist '','' p"
      using split_comma_free [OF that] by (simp add: sublist_single)
    moreover have "\<forall>entry\<in>set tests. \<not> sublist (fst entry) p"
      using assms split_piece_sublist [OF that] sublist_order.order_trans by blast
    ultimately show ?thesis
      by (simp add: classify_filter.simps classify_scan_no_token)
  qed
  then have m: "map classify_filter (split '','' s) = map (\<lambda>p. Ok FNone) (split '','' s)"
    by simp
  have "classify_filter s = Ok (FList (map (\<lambda>p. FNone) (split '','' s)))"
    by (subst classify_filter.simps) (simp only: True if_True m collect_all_ok res.case)
  moreover obtain q qs where "split '','' s = q # qs"
    using split_nonempty [of "'',''" s] by (cases "split '','' s") auto
  ultimately show ?thesis by (simp add: resolve_def)
qed

section \<open>Filters without a recognised operator\<close>

text \<open>
  C1 says that a filter string without any operator token (the empty string included)
  makes \<open>results_filter\<close> and \<open>inventory_filter\<close> return an empty sequence without an
  exception. The code does not: \<open>classify_filter\<close> returns \<^verbatim>\<open>None\<close> (or a list of
  \<^verbatim>\<open>None\<close>), the filters wrap it in a list, and the first \<^verbatim>\<open>rf.test\<close> or
  \<^verbatim>\<open>rf.haystack\<close> raises AttributeError. For every such filter string,
  \<open>results_filter\<close> on a non-empty sequence raises AttributeError, and so does
  \<open>inventory_filter\<close> as soon as its first record has been flattened.
\<close>

theorem unrecognized_filter_raises:
  assumes "\<forall>entry\<in>set tests. \<not> sublist (fst entry) raw_filter"
  shows "(results \<noteq> [] \<longrightarrow> results_filter results raw_filter = Raise AttributeError)
       \<and> (\<forall>host hosts flat. flatten_dict host [] ''.'' = Ok flat \<longrightarrow>
            inventory_filter (host # hosts) raw_filter = Raise AttributeError)"
proof -
  obtain c rest where c: "classify_filter raw_filter = Ok c" "resolve c = FNone # rest"
    using resolve_no_token [OF assms] by blast
  have "results_filter results raw_filter = Raise AttributeError" if "results \<noteq> []"
    using that c by (cases results) (simp_all add: results_filter_def)
  moreover have "inventory_filter (host # hosts) raw_filter = Raise AttributeError"
    if "flatten_dict host [] ''.'' = Ok flat" for host hosts flat
    using that c by (simp add: inventory_filter_def host_evals_def)
  ultimately show ?thesis by blast
qed

theorem unrecognized_filter_raises_witness:
  "results_filter [PStr ''apple'', PStr ''banana''] [] = Raise AttributeError
   \<and> inventory_filter [[(''name'', PStr ''x'')]] [] = Raise AttributeError"
proof -
  have n: "\<forall>entry\<in>set tests. \<not> sublist (fst entry) []"
    by (simp add: tests_def)
  have f: "flatten_dict [(''name'', PStr ''x'')] [] ''.'' = Ok [(''name'', PStr ''x'')]"
    by code_simp
  show ?thesis
    using unrecognized_filter_raises [OF n, of "[PStr ''apple'', PStr ''banana'']"] f by simp
qed

section \<open>Flattening\<close>

text \<open>
  C5: flattening \<^verbatim>\<open>{"a": [1, {"b": 2}]}\<close> with separator \<^verbatim>\<open>"."\<close> yields the mapping
  \<^verbatim>\<open>{"a": [1], "a.b": 2}\<close>: the record leaves the list and its field is stored under
  \<^verbatim>\<open>"a.b"\<close>. The items come out with \<^verbatim>\<open>"a.b"\<close> first; as mappings the two are equal.
\<close>

theorem flatten_dict_sequence_with_record:
  "flatten_dict [(''a'', PList [PInt 1, PDict [(''b'', PInt 2)]])] [] ''.''
     = Ok [(''a.b'', PInt 2), (''a'', PList [PInt 1])]
   \<and> map_of [(''a.b'', PInt 2), (''a'', PList [PInt 1])]
     = map_of [(''a'', PList [PInt 1]), (''a.b'', PInt 2)]"
proof
  show "flatten_dict [(''a'', PList [PInt 1, PDict [(''b'', PInt 2)]])] [] ''.''
     = Ok [(''a.b'', PInt 2), (''a'', PList [PInt 1])]"
    by code_simp
  show "map_of [(''a.b'', PInt 2), (''a'', PList [PInt 1])]
     = map_of [(''a'', PList [PInt 1]), (''a.b'', PInt 2)]"
    by (rule ext) simp
qed

text \<open>
  C2 says that a list with two or more records loses exactly its records. The code
  deletes by the indices it collected, lowest first, so every deletion after the
  first hits a shifted list: with two records and nothing else the second deletion
  is out of range (IndexError); with two records followed by two integers the
  second record stays in the list and the integer 3 is deleted in its place.
\<close>

theorem flatten_dict_index_shift:
  "flatten_dict [(''a'', PList [PDict [(''b'', PInt 1)], PDict [(''c'', PInt 2)]])] [] ''.''
     = Raise IndexError
   \<and> flatten_dict
       [(''a'', PList [PDict [(''b'', PInt 1)], PDict [(''c'', PInt 2)], PInt 3, PInt 4])] [] ''.''
     = Ok [(''a.b'', PInt 1), (''a.c'', PInt 2), (''a'', PList [PDict [(''c'', PInt 2)], PInt 4])]"
  by code_simp

section \<open>Splitting a clause\<close>

text \<open>
  C6 says that a clause is split at the first occurrence of the matched token, also
  when the token occurs more than once. The code splits at every occurrence and
  unpacks the pieces into two names, so a repeated token raises ValueError.
\<close>

theorem classify_filter_repeated_token:
  "classify_filter ''a=b=c'' = Raise ValueError \<and> classify_filter ''a==b'' = Raise ValueError"
  by code_simp

section \<open>Values that do not fit between quotes\<close>

text \<open>
  C7 says that evaluating a predicate never raises, whatever scalar or sequence is
  tested, strings with quote characters included. The code pastes the value's
  string form between single quotes and evaluates the result: for the string
  \<^verbatim>\<open>it's\<close> the source is \<^verbatim>\<open>'a' in 'it's'\<close>, whose last literal is never closed, and
  \<^verbatim>\<open>eval\<close> raises SyntaxError in both filters.
\<close>

theorem quote_in_value_raises:
  "results_filter [PStr (''it'' @ [squote] @ ''s'')] ''<a'' = Raise SyntaxError
   \<and> inventory_filter [[(''name'', PStr (''it'' @ [squote] @ ''s''))]] ''name=x''
     = Raise SyntaxError"
  by code_simp

section \<open>Splitting at a token that occurs once\<close>

text \<open>
  The number of positions of a string at which a token starts: the token occurs
  exactly once when this is 1.
\<close>

fun occurrences :: "string \<Rightarrow> string \<Rightarrow> nat" where
  "occurrences tok [] = 0"
| "occurrences tok (c # cs) = (if prefix tok (c # cs) then 1 else 0) + occurrences tok cs"

lemma join_split: "join sep (split sep s) = s"
proof (induction sep s rule: split.induct)
  case (1 sep)
  then show ?case by simp
next
  case (2 sep c cs)
  show ?case
  proof (cases "sep \<noteq> [] \<and> prefix sep (c # cs)")
    case True
    obtain q qs where q: "split sep (drop (length sep) (c # cs)) = q # qs"
      using split_nonempty [of sep "drop (length sep) (c # cs)"]
      by (cases "split sep (drop (length sep) (c # cs))") auto
    have "join sep (split sep (c # cs)) = sep @ join sep (q # qs)"
      using True q by simp
    also have "\<dots> = sep @ drop (length sep) (c # cs)"
      using 2(1) [OF True] q by simp
    also have "\<dots> = c # cs"
      using True by (metis append_eq_conv_conj prefix_def)
    finally show ?thesis .
  next
    case False
    obtain q qs where q: "split sep cs = q # qs"
      using split_nonempty [of sep cs] by (cases "split sep cs") auto
    have "split sep (c # cs) = (c # q) # qs"
      using False q by auto
    moreover have "join sep ((c # q) # qs) = c # join sep (q # qs)"
      by (cases qs) simp_all
    ultimately show ?thesis
      using q 2(2) [OF False] by simp
  qed
qed

lemma split_two: "split sep s = [k, v] \<Longrightarrow> k @ sep @ v = s"
  using join_split [of sep s] by simp

lemma occurrences_drop: "occurrences tok (drop n s) \<le> occurrences tok s"
proof (induction s arbitrary: n)
  case Nil
  then show ?case by simp
next
  case (Cons c cs)
  show ?case
  proof (cases n)
    case 0
    then show ?thesis by simp
  next
    case (Suc m)
    then show ?thesis using Cons [of m] by simp
  qed
qed

lemma length_split_le: "length (split tok s) \<le> Suc (occurrences tok s)"
proof (induction tok s rule: split.induct)
  case (1 sep)
  then show ?case by simp
next
  case (2 sep c cs)
  show ?case
  proof (cases "sep \<noteq> [] \<and> prefix sep (c # cs)")
    case True
    then obtain m where m: "length sep = Suc m" by (cases sep) auto
    have "length (split sep (c # cs)) = Suc (length (split sep (drop m cs)))"
      using True m by simp
    also have "\<dots> \<le> Suc (Suc (occurrences sep (drop m cs)))"
      using 2(1) [OF True] m by simp
    also have "\<dots> \<le> Suc (Suc (occurrences sep cs))"
      using occurrences_drop [of sep m cs] by simp
    also have "\<dots> = Suc (occurrences sep (c # cs))"
      using True by simp
    finally show ?thesis .
  next
    case False
    obtain q qs where q: "split sep cs = q # qs"
      using split_nonempty [of sep cs] by (cases "split sep cs") auto
    then show ?thesis using False 2(2) [OF False] by auto
  qed
qed

lemma length_split_ge: "sep \<noteq> [] \<Longrightarrow> sublist sep s \<Longrightarrow> 2 \<le> length (split sep s)"
proof (induction sep s rule: split.induct)
  case (1 sep)
  then show ?case by simp
next
  case (2 sep c cs)
  show ?case
  proof (cases "prefix sep (c # cs)")
    case True
    then show ?thesis
      using 2(3) split_nonempty [of sep "drop (length sep) (c # cs)"]
      by (cases "split sep (drop (length sep) (c # cs))") auto
  next
    case False
    then have "sublist sep cs" using 2(4) by (simp add: sublist_Cons_right)
    moreover obtain q qs where q: "split sep cs = q # qs"
      using split_nonempty [of sep cs] by (cases "split sep cs") auto
    ultimately show ?thesis using False 2(2) 2(3) by auto
  qed
qed

lemma occurrences_sublist: "0 < occurrences tok s \<Longrightarrow> sublist tok s"
  by (induction s) (auto simp: sublist_Cons_right split: if_splits)

lemma split_once:
  assumes "tok \<noteq> []" and "occurrences tok s = 1"
  shows "\<exists>k v. split tok s = [k, v]"
proof -
  have "length (split tok s) = 2"
    using length_split_le [of tok s] length_split_ge [OF assms(1) occurrences_sublist [of tok s]]
      assms(2) by simp
  then show ?thesis
    by (metis (no_types, opaque_lifting) One_nat_def Suc_1 length_0_conv length_Suc_conv)
qed

lemma classify_scan_find:
  "classify_scan tbl s =
     (case find (\<lambda>entry. sublist (fst entry) s) tbl of
        None \<Rightarrow> Ok FNone
      | Some entry \<Rightarrow>
          (case split (fst entry) s of
             [k, v] \<Rightarrow> Ok (FTest \<lparr>haystack = k, needle = v, test = snd entry\<rparr>)
           | _ \<Rightarrow> Raise ValueError))"
  by (induction tbl) (auto split: list.splits)

lemma tokens_nonempty: "entry \<in> set tests \<Longrightarrow> fst entry \<noteq> []"
  unfolding tests_def by auto

text \<open>
  C10: for a clause without a comma whose first-matching token (in the order of the
  table) occurs exactly once, \<open>classify_filter\<close> returns a predicate with
  \<open>haystack @ token @ needle = clause\<close>, carrying that token's test: no character
  of the clause is lost.
\<close>

theorem classify_filter_roundtrip:
  assumes "\<not> sublist '','' clause"
    and "find (\<lambda>entry. sublist (fst entry) clause) tests = Some (token, tst)"
    and "occurrences token clause = 1"
  shows "\<exists>p. classify_filter clause = Ok (FTest p)
           \<and> haystack p @ token @ needle p = clause \<and> test p = tst"
proof -
  have "(token, tst) \<in> set tests"
    using assms(2) by (auto simp: find_Some_iff)
  then have "token \<noteq> []"
    using tokens_nonempty by fastforce
  then obtain k v where kv: "split token clause = [k, v]"
    using split_once assms(3) by blast
  have "classify_filter clause = Ok (FTest \<lparr>haystack = k, needle = v, test = tst\<rparr>)"
    using assms(1,2) kv by (simp add: classify_filter.simps classify_scan_find)
  then show ?thesis
    using split_two [OF kv] by simp
qed

theorem classify_filter_roundtrip_witness:
  "\<exists>p. classify_filter ''name=foo'' = Ok (FTest p)
       \<and> haystack p @ ''='' @ needle p = ''name=foo''
       \<and> test p = quoted ''{haystack}'' @ '' == '' @ quoted ''{needle}''"
proof -
  have a: "\<not> sublist '','' ''name=foo''"
    by (simp add: sublist_code)
  have b: "find (\<lambda>entry. sublist (fst entry) ''name=foo'') tests
             = Some (''='', quoted ''{haystack}'' @ '' == '' @ quoted ''{needle}'')"
    by (simp add: tests_def sublist_code)
  have c: "occurrences ''='' ''name=foo'' = 1"
    by simp
  show ?thesis
    using classify_filter_roundtrip [OF a b c] .
qed

section \<open>The order of the table\<close>

lemma classify_clause:
  "\<not> sublist '','' clause \<Longrightarrow> classify_filter clause = classify_scan tests clause"
  by (simp add: classify_filter.simps)

text \<open>
  C3: the table is scanned in the order \<^verbatim>\<open>!<\<close>, \<^verbatim>\<open><\<close>, \<^verbatim>\<open>!=\<close>, \<^verbatim>\<open>=\<close>, \<^verbatim>\<open>!{\<close>, \<^verbatim>\<open>{\<close>, \<^verbatim>\<open>!}\<close>, \<^verbatim>\<open>}\<close> and
  the first token that occurs in the clause decides: the predicate of a clause
  carries the test of a token that occurs in it, and no earlier token of the table
  occurs. So \<^verbatim>\<open>name!=foo\<close> gives the \<^verbatim>\<open>!=\<close> test, which holds iff the value's string
  differs from \<^verbatim>\<open>foo\<close>, and \<^verbatim>\<open>name!<foo\<close> gives the \<^verbatim>\<open>not in\<close> test, which holds iff
  \<^verbatim>\<open>foo\<close> is not a substring of the value's string.
\<close>

theorem classify_filter_precedence:
  "map fst tests = [''!<'', ''<'', ''!='', ''='', ''!{'', ''{'', ''!}'', ''}'']
   \<and> (\<forall>clause p. \<not> sublist '','' clause \<longrightarrow> classify_filter clause = Ok (FTest p) \<longrightarrow>
         (\<exists>i<length tests. test p = snd (tests ! i) \<and> sublist (fst (tests ! i)) clause
            \<and> (\<forall>j<i. \<not> sublist (fst (tests ! j)) clause)))
   \<and> classify_filter ''name!=foo''
       = Ok (FTest \<lparr>haystack = ''name'', needle = ''foo'',
                     test = quoted ''{haystack}'' @ '' != '' @ quoted ''{needle}''\<rparr>)
   \<and> classify_filter ''name!<foo''
       = Ok (FTest \<lparr>haystack = ''name'', needle = ''foo'',
                     test = quoted ''{needle}'' @ '' not in '' @ quoted ''{haystack}''\<rparr>)
   \<and> (\<forall>v. list_all literal_safe (py_str v) \<longrightarrow>
         eval_test \<lparr>haystack = ''name'', needle = ''foo'',
                    test = quoted ''{haystack}'' @ '' != '' @ quoted ''{needle}''\<rparr> v
           = Ok (py_str v \<noteq> ''foo'')
       \<and> eval_test \<lparr>haystack = ''name'', needle = ''foo'',
                    test = quoted ''{needle}'' @ '' not in '' @ quoted ''{haystack}''\<rparr> v
           = Ok (\<not> sublist ''foo'' (py_str v)))"
proof (intro conjI allI impI)
  show "map fst tests = [''!<'', ''<'', ''!='', ''='', ''!{'', ''{'', ''!}'', ''}'']"
    by (simp add: tests_def)
next
  fix clause p
  assume c: "\<not> sublist '','' clause" and r: "classify_filter clause = Ok (FTest p)"
  from r have s: "classify_scan tests clause = Ok (FTest p)"
    using classify_clause [OF c] by simp
  then obtain entry where e: "find (\<lambda>entry. sublist (fst entry) clause) tests = Some entry"
    and t: "test p = snd entry"
    unfolding classify_scan_find by (auto split: option.splits list.splits)
  from e obtain i where "i < length tests" "sublist (fst (tests ! i)) clause" "entry = tests ! i"
    "\<forall>j<i. \<not> sublist (fst (tests ! j)) clause"
    unfolding find_Some_iff by blast
  with t show "\<exists>i<length tests. test p = snd (tests ! i) \<and> sublist (fst (tests ! i)) clause
            \<and> (\<forall>j<i. \<not> sublist (fst (tests ! j)) clause)"
    by blast
next
  show "classify_filter ''name!=foo''
       = Ok (FTest \<lparr>haystack = ''name'', needle = ''foo'',
                     test = quoted ''{haystack}'' @ '' != '' @ quoted ''{needle}''\<rparr>)"
    by code_simp
next
  show "classify_filter ''name!<foo''
       = Ok (FTest \<lparr>haystack = ''name'', needle = ''foo'',
                     test = quoted ''{needle}'' @ '' not in '' @ quoted ''{haystack}''\<rparr>)"
    by code_simp
next
  fix v
  assume v: "list_all literal_safe (py_str v)"
  have n: "list_all literal_safe ''foo''"
    by (simp add: literal_safe_def squote_def backslash_def)
  have "(''!='', quoted ''{haystack}'' @ '' != '' @ quoted ''{needle}'') \<in> set tests"
    unfolding tests_def by (simp only: list.set insert_iff simp_thms)
  from eval_test_table [OF this v n]
  show "eval_test \<lparr>haystack = ''name'', needle = ''foo'',
                    test = quoted ''{haystack}'' @ '' != '' @ quoted ''{needle}''\<rparr> v
           = Ok (py_str v \<noteq> ''foo'')"
    by (simp add: holds_def)
  have "(''!<'', quoted ''{needle}'' @ '' not in '' @ quoted ''{haystack}'') \<in> set tests"
    unfolding tests_def by (simp only: list.set insert_iff simp_thms)
  from eval_test_table [OF this v n]
  show "eval_test \<lparr>haystack = ''name'', needle = ''foo'',
                    test = quoted ''{needle}'' @ '' not in '' @ quoted ''{haystack}''\<rparr> v
           = Ok (\<not> sublist ''foo'' (py_str v))"
    by (simp add: holds_def)
qed


theorem classify_filter_precedence_witness:
  "(\<exists>i<length tests. quoted ''{haystack}'' @ '' != '' @ quoted ''{needle}'' = snd (tests ! i)
       \<and> sublist (fst (tests ! i)) ''name!=foo'')
   \<and> eval_test \<lparr>haystack = ''name'', needle = ''foo'',
                test = quoted ''{haystack}'' @ '' != '' @ quoted ''{needle}''\<rparr> (PStr ''food'')
       = Ok True
   \<and> eval_test \<lparr>haystack = ''name'', needle = ''foo'',
                test = quoted ''{needle}'' @ '' not in '' @ quoted ''{haystack}''\<rparr> (PStr ''food'')
       = Ok False"
proof -
  note main = classify_filter_precedence
  note first_match = main [THEN conjunct2, THEN conjunct1, rule_format]
  note ne = main [THEN conjunct2, THEN conjunct2, THEN conjunct1]
  note meaning = main [THEN conjunct2, THEN conjunct2, THEN conjunct2, THEN conjunct2, rule_format]
  have c: "\<not> sublist '','' ''name!=foo''"
    by (simp add: sublist_code)
  obtain i where i: "i < length tests"
    "test \<lparr>haystack = ''name'', needle = ''foo'',
           test = quoted ''{haystack}'' @ '' != '' @ quoted ''{needle}''\<rparr> = snd (tests ! i)"
    "sublist (fst (tests ! i)) ''name!=foo''"
    using first_match [OF c ne] by (elim exE conjE)
  have v: "list_all literal_safe (py_str (PStr ''food''))"
    by (simp add: py_str_def literal_safe_def squote_def backslash_def)
  have t: "(py_str (PStr ''food'') \<noteq> ''foo'') = True" "(\<not> sublist ''foo'' (py_str (PStr ''food''))) = False"
    by (simp_all add: py_str_def sublist_code)
  have "\<exists>i<length tests. quoted ''{haystack}'' @ '' != '' @ quoted ''{needle}'' = snd (tests ! i)
       \<and> sublist (fst (tests ! i)) ''name!=foo''"
    using i by (intro exI [of _ i]) (simp only: FilterTest.simps simp_thms)
  then show ?thesis
    using meaning [OF v, THEN conjunct1] meaning [OF v, THEN conjunct2] unfolding t
    by (intro conjI)
qed

section \<open>The loops as filters\<close>




lemma accepted_map: "accepted (map f ps) \<longleftrightarrow> ps \<noteq> [] \<and> (\<forall>p\<in>set ps. f p)"
  by (auto simp: accepted_def list_all_iff)




lemma inventory_evals_present:
  "inventory_evals (map FTest ps) flat =
     collect (map (\<lambda>p. eval_test p (the (map_of flat (haystack p))))
                  (filter (\<lambda>p. map_of flat (haystack p) \<noteq> None) ps))"
  by (induction ps) (auto split: option.splits res.splits)

lemma inventory_loop_iff:
  "inventory_loop resolved inventory = Ok out
   \<longleftrightarrow> (\<forall>host\<in>set inventory. \<exists>bs. host_evals resolved host = Ok bs)
       \<and> out = filter (\<lambda>host. \<exists>bs. host_evals resolved host = Ok bs \<and> accepted bs) inventory"
proof (induction inventory arbitrary: out)
  case Nil
  then show ?case by auto
next
  case (Cons host hosts)
  show ?case
  proof (cases "host_evals resolved host")
    case (Ok bs)
    show ?thesis
    proof (cases "inventory_loop resolved hosts")
      case (Ok matching)
      with Cons [of matching] \<open>host_evals resolved host = Ok bs\<close> show ?thesis by auto
    next
      case (Raise e)
      with Cons \<open>host_evals resolved host = Ok bs\<close> show ?thesis by auto
    next
      case Unmodelled
      with Cons \<open>host_evals resolved host = Ok bs\<close> show ?thesis by auto
    qed
  next
    case (Raise e)
    then show ?thesis by auto
  next
    case Unmodelled
    then show ?thesis by auto
  qed
qed

lemma inventory_loop_filter:
  "\<forall>host\<in>set inventory. host_evals resolved host = Ok (bs host)
   \<Longrightarrow> inventory_loop resolved inventory = Ok (filter (\<lambda>host. accepted (bs host)) inventory)"
  by (induction inventory) auto


section \<open>Comma-separated clauses\<close>


lemma eq_entry: "(''='', quoted ''{haystack}'' @ '' == '' @ quoted ''{needle}'') \<in> set tests"
  unfolding tests_def by (simp only: list.set insert_iff simp_thms)







text \<open>
  Why the evaluations are asked to return: on \<^verbatim>\<open>apple\<close> both predicates of \<^verbatim>\<open>k<a,k<p\<close>
  are true, and \<open>results_filter\<close> returns it; next to the value \<^verbatim>\<open>it's\<close> the call
  raises SyntaxError and returns nothing.
\<close>

lemma results_filter_and_raises:
  "results_filter [PStr ''apple''] ''k<a,k<p'' = Ok [PStr ''apple'']"
  "results_filter [PStr ''apple'', PStr (''it'' @ [squote] @ ''s'')] ''k<a,k<p''
     = Raise SyntaxError"
  by code_simp+

section \<open>Presence of the filter's keys\<close>

lemma host_evals_present:
  assumes "flatten_dict host [] ''.'' = Ok flat"
  shows "host_evals (map FTest ps) host =
     collect (map (\<lambda>p. eval_test p (the (map_of flat (haystack p))))
                  (filter (\<lambda>p. map_of flat (haystack p) \<noteq> None) ps))"
  using assms by (simp add: host_evals_def inventory_evals_present)

lemma host_evals_truth:
  assumes "flatten_dict host [] ''.'' = Ok flat"
    and "\<forall>p\<in>set ps. \<forall>v. map_of flat (haystack p) = Some v \<longrightarrow> eval_test p v = Ok (truth p v)"
  shows "host_evals (map FTest ps) host =
     Ok (map (\<lambda>p. truth p (the (map_of flat (haystack p))))
             (filter (\<lambda>p. map_of flat (haystack p) \<noteq> None) ps))"
proof -
  have "map (\<lambda>p. eval_test p (the (map_of flat (haystack p))))
            (filter (\<lambda>p. map_of flat (haystack p) \<noteq> None) ps)
        = map (\<lambda>p. Ok (truth p (the (map_of flat (haystack p)))))
            (filter (\<lambda>p. map_of flat (haystack p) \<noteq> None) ps)"
    using assms(2) by auto
  then show ?thesis
    unfolding host_evals_present [OF assms(1)] by (simp only: collect_all_ok)
qed

text \<open>
  Let the filter string be classified into predicates. \<open>inventory_filter\<close> flattens
  every record and evaluates only the predicates whose key is in the flattened
  record, so nothing is asked of a predicate whose key is missing. When the records
  flatten and these evaluations return, the records that are kept are exactly
  those with at least one predicate's key present and every predicate whose key is
  present true; a record with none of the keys is dropped. The function returns
  exactly when flattening and evaluation return for every record, and the list it
  tests is the list of results of the predicates whose key is present.
\<close>

lemma inventory_filter_presence:
  assumes "classify_filter raw_filter = Ok c" and "resolve c = map FTest ps"
  shows "((\<forall>host\<in>set inventory. flatten_dict host [] ''.'' = Ok (flat host)) \<longrightarrow>
          (\<forall>host\<in>set inventory. \<forall>p\<in>set ps. \<forall>v.
              map_of (flat host) (haystack p) = Some v \<longrightarrow> eval_test p v = Ok (truth p v)) \<longrightarrow>
          inventory_filter inventory raw_filter
            = Ok (filter (\<lambda>host. (\<exists>p\<in>set ps. map_of (flat host) (haystack p) \<noteq> None)
                              \<and> (\<forall>p\<in>set ps. \<forall>v. map_of (flat host) (haystack p) = Some v
                                     \<longrightarrow> truth p v))
                         inventory))
       \<and> (inventory_filter inventory raw_filter = Ok out
            \<longleftrightarrow> (\<forall>host\<in>set inventory. \<exists>bs. host_evals (map FTest ps) host = Ok bs)
                \<and> out = filter (\<lambda>host. \<exists>bs. host_evals (map FTest ps) host = Ok bs
                                          \<and> bs \<noteq> [] \<and> list_all id bs) inventory)
       \<and> (\<forall>host fl. flatten_dict host [] ''.'' = Ok fl \<longrightarrow>
             host_evals (map FTest ps) host
               = collect (map (\<lambda>p. eval_test p (the (map_of fl (haystack p))))
                              (filter (\<lambda>p. map_of fl (haystack p) \<noteq> None) ps)))"
proof (intro conjI impI allI)
  assume fl: "\<forall>host\<in>set inventory. flatten_dict host [] ''.'' = Ok (flat host)"
    and ev: "\<forall>host\<in>set inventory. \<forall>p\<in>set ps. \<forall>v.
              map_of (flat host) (haystack p) = Some v \<longrightarrow> eval_test p v = Ok (truth p v)"
  let ?bs = "\<lambda>host. map (\<lambda>p. truth p (the (map_of (flat host) (haystack p))))
                        (filter (\<lambda>p. map_of (flat host) (haystack p) \<noteq> None) ps)"
  have "\<forall>host\<in>set inventory. host_evals (map FTest ps) host = Ok (?bs host)"
    using fl ev host_evals_truth by blast
  from inventory_loop_filter [OF this]
  have "inventory_filter inventory raw_filter
          = Ok (filter (\<lambda>host. accepted (?bs host)) inventory)"
    using assms by (simp add: inventory_filter_def)
  moreover have "accepted (?bs host)
      \<longleftrightarrow> (\<exists>p\<in>set ps. map_of (flat host) (haystack p) \<noteq> None)
          \<and> (\<forall>p\<in>set ps. \<forall>v. map_of (flat host) (haystack p) = Some v \<longrightarrow> truth p v)" for host
    unfolding accepted_map by (auto simp: filter_empty_conv)
  ultimately show "inventory_filter inventory raw_filter
            = Ok (filter (\<lambda>host. (\<exists>p\<in>set ps. map_of (flat host) (haystack p) \<noteq> None)
                              \<and> (\<forall>p\<in>set ps. \<forall>v. map_of (flat host) (haystack p) = Some v
                                     \<longrightarrow> truth p v))
                         inventory)"
    by simp
next
  show "inventory_filter inventory raw_filter = Ok out
            \<longleftrightarrow> (\<forall>host\<in>set inventory. \<exists>bs. host_evals (map FTest ps) host = Ok bs)
                \<and> out = filter (\<lambda>host. \<exists>bs. host_evals (map FTest ps) host = Ok bs
                                          \<and> bs \<noteq> [] \<and> list_all id bs) inventory"
    using assms inventory_loop_iff [of "map FTest ps" inventory out]
    by (simp add: inventory_filter_def accepted_def)
next
  fix host fl
  assume "flatten_dict host [] ''.'' = Ok fl"
  then show "host_evals (map FTest ps) host
               = collect (map (\<lambda>p. eval_test p (the (map_of fl (haystack p))))
                              (filter (\<lambda>p. map_of fl (haystack p) \<noteq> None) ps))"
    by (rule host_evals_present)
qed


lemma inventory_filter_presence_example:
  "inventory_filter [[(''name'', PStr ''x'')], [(''other'', PStr ''y'')]] ''name=x''
     = Ok [[(''name'', PStr ''x'')]]"
proof -
  define eq where "eq = quoted ''{haystack}'' @ '' == '' @ quoted ''{needle}''"
  define p where "p = \<lparr>haystack = ''name'', needle = ''x'', test = eq\<rparr>"
  define h1 where "h1 = [(''name'', PStr ''x'')]"
  define h2 where "h2 = [(''other'', PStr ''y'')]"
  have cl: "classify_filter ''name=x'' = Ok (FTest p)"
    unfolding p_def eq_def by code_simp
  have rs: "resolve (FTest p) = map FTest [p]"
    by (simp add: resolve_def)
  have fl: "\<forall>host\<in>set [h1, h2]. flatten_dict host [] ''.'' = Ok (id host)"
  proof -
    have "flatten_dict h1 [] ''.'' = Ok h1" "flatten_dict h2 [] ''.'' = Ok h2"
      unfolding h1_def h2_def by code_simp+
    then show ?thesis by simp
  qed
  have x: "list_all literal_safe ''x''"
    by (simp add: literal_safe_def squote_def backslash_def)
  have e: "eval_test p (PStr ''x'') = Ok (py_str (PStr ''x'') = ''x'')"
    using eval_test_table [OF eq_entry _ x, of "PStr ''x''" "''name''"] x
    by (simp add: p_def eq_def holds_def py_str_def)
  have ev: "\<forall>host\<in>set [h1, h2]. \<forall>q\<in>set [p]. \<forall>v.
              map_of (id host) (haystack q) = Some v \<longrightarrow> eval_test q v = Ok (py_str v = ''x'')"
    using e by (simp add: h1_def h2_def p_def)
  note main = inventory_filter_presence [OF cl rs, of "[h1, h2]" id "\<lambda>q v. py_str v = ''x''",
      THEN conjunct1, THEN mp, OF fl, THEN mp, OF ev]
  have "filter (\<lambda>host. (\<exists>q\<in>set [p]. map_of (id host) (haystack q) \<noteq> None)
                        \<and> (\<forall>q\<in>set [p]. \<forall>v. map_of (id host) (haystack q) = Some v
                               \<longrightarrow> py_str v = ''x'')) [h1, h2] = [h1]"
    by (simp add: h1_def h2_def p_def py_str_def)
  with main show ?thesis
    unfolding h1_def h2_def by simp
qed

text \<open>
  C4 says that for every sequence of records and every filter string that parses
  to at least one predicate, a record is kept iff the results collected for the
  predicates whose key is present are non-empty and all true. The rule is the one
  the code applies (\<open>inventory_filter_presence\<close>), but the call does not return on
  all these inputs. With \<^verbatim>\<open>name=x,zzz\<close> the clause \<^verbatim>\<open>zzz\<close> leaves \<^verbatim>\<open>None\<close> beside the
  predicate, and the presence test \<^verbatim>\<open>rf.haystack in flattened_host\<close> raises
  AttributeError on it, though the record has the key and the value of the one
  predicate. A record whose value has a quote makes \<^verbatim>\<open>eval\<close> raise SyntaxError, so
  the matching record before it is not returned either, and a record with two
  records in a list raises IndexError while it is flattened.
\<close>

theorem inventory_filter_raises:
  "inventory_filter [[(''name'', PStr ''x'')]] ''name=x,zzz'' = Raise AttributeError
   \<and> inventory_filter [[(''name'', PStr ''x'')], [(''name'', PStr (''it'' @ [squote] @ ''s''))]]
         ''name=x'' = Raise SyntaxError
   \<and> inventory_filter
         [[(''name'', PStr ''x''), (''tags'', PList [PDict [(''a'', PInt 1)], PDict [(''b'', PInt 2)]])]]
         ''name=x'' = Raise IndexError"
  by code_simp

section \<open>flatten\_dict on a store\<close>

text \<open>
  Lists and dictionaries are objects: two names can refer to one list, and
  \<^verbatim>\<open>del value[index]\<close> changes the list for all of them. To say what \<open>flatten_dict\<close>
  does to its argument, the objects live in a store, a list of objects in which an
  address is a position; a new object is appended. A reference is a scalar or the
  address of an object.
\<close>

datatype ref = RNone | RBool bool | RInt int | RStr string | Addr nat

datatype obj = OList "ref list" | ODict "(string \<times> ref) list"

type_synonym store = "obj list"

text \<open>The object at an address; \<open>None\<close> for an address past the end of the store.\<close>

definition lookup :: "store \<Rightarrow> nat \<Rightarrow> obj option" where
  "lookup h a = (if a < length h then Some (h ! a) else None)"

text \<open>\<^verbatim>\<open>dict(flattened)\<close> on references.\<close>

definition st_dict :: "(string \<times> ref) list \<Rightarrow> (string \<times> ref) list" where
  "st_dict pairs = fold (\<lambda>kv d. AList.update (fst kv) (snd kv) d) pairs []"

text \<open>
  \<^verbatim>\<open>for index in to_remove: del value[index]\<close>, where \<^verbatim>\<open>value\<close> is the object at address
  \<open>a\<close>: each deletion replaces that object in the store.
\<close>

fun del_indices_st :: "store \<Rightarrow> nat \<Rightarrow> nat list \<Rightarrow> store \<times> unit res" where
  "del_indices_st h a [] = (h, Ok ())"
| "del_indices_st h a (i # is) =
     (case lookup h a of
        Some (OList l) \<Rightarrow>
          if i < length l then del_indices_st (h[a := OList (take i l @ drop (Suc i) l)]) a is
          else (h, Raise IndexError)
      | _ \<Rightarrow> (h, Unmodelled))"

text \<open>
  \<open>flatten_dict\<close> on the store. The first argument is the number of nested calls
  Python still allows; at 0 the call raises RecursionError, which is how a record
  that contains itself ends. \<^verbatim>\<open>nested_dict.items()\<close> raises AttributeError when the
  argument is not a dictionary. \<^verbatim>\<open>value = value.copy()\<close> appends a new list with the
  same elements to the store and the deletions act on that address. The local lists
  \<^verbatim>\<open>flattened\<close> and \<^verbatim>\<open>to_remove\<close> are new and no other name refers to them, so they are
  carried as values; the dictionary that is returned is a new object of the store.
  The loops read the items of a dictionary, and the elements of the copy, when they
  start: no call in their bodies changes an object that exists (lemma
  \<open>flatten_st_frame\<close> below). A reference to no object is outside the model.
\<close>

function flatten_dict_st ::
  "nat \<Rightarrow> store \<Rightarrow> ref \<Rightarrow> string \<Rightarrow> string \<Rightarrow> store \<times> ref res"
and flatten_items_st ::
  "nat \<Rightarrow> store \<Rightarrow> (string \<times> ref) list \<Rightarrow> string \<Rightarrow> string \<Rightarrow> (string \<times> ref) list
    \<Rightarrow> store \<times> (string \<times> ref) list res"
and flatten_elems_st ::
  "nat \<Rightarrow> store \<Rightarrow> ref list \<Rightarrow> nat \<Rightarrow> string \<Rightarrow> string \<Rightarrow> (string \<times> ref) list \<Rightarrow> nat list
    \<Rightarrow> store \<times> ((string \<times> ref) list \<times> nat list) res"
where
  "flatten_dict_st 0 h nested_dict parent_key separator = (h, Raise RecursionError)"
| "flatten_dict_st (Suc depth) h nested_dict parent_key separator =
     (case nested_dict of
        Addr a \<Rightarrow>
          (case lookup h a of
             None \<Rightarrow> (h, Unmodelled)
           | Some (OList l) \<Rightarrow> (h, Raise AttributeError)
           | Some (ODict items) \<Rightarrow>
               (case flatten_items_st depth h items parent_key separator [] of
                  (h', Ok flattened) \<Rightarrow>
                    (h' @ [ODict (st_dict flattened)], Ok (Addr (length h')))
                | (h', Raise e) \<Rightarrow> (h', Raise e)
                | (h', Unmodelled) \<Rightarrow> (h', Unmodelled)))
      | _ \<Rightarrow> (h, Raise AttributeError))"
| "flatten_items_st depth h [] parent_key separator flattened = (h, Ok flattened)"
| "flatten_items_st depth h ((key, v) # rest) parent_key separator flattened =
     (case v of
        Addr a \<Rightarrow>
          (case lookup h a of
             None \<Rightarrow> (h, Unmodelled)
           | Some (ODict d) \<Rightarrow>
               (case flatten_dict_st depth h v (new_key parent_key separator key) separator of
                  (h1, Ok r) \<Rightarrow>
                    (case r of
                       Addr ra \<Rightarrow>
                         (case lookup h1 ra of
                            Some (ODict sub) \<Rightarrow>
                              flatten_items_st depth h1 rest parent_key separator (flattened @ sub)
                          | _ \<Rightarrow> (h1, Unmodelled))
                     | _ \<Rightarrow> (h1, Unmodelled))
                | (h1, Raise e) \<Rightarrow> (h1, Raise e)
                | (h1, Unmodelled) \<Rightarrow> (h1, Unmodelled))
           | Some (OList l) \<Rightarrow>
               (case flatten_elems_st depth (h @ [OList l]) l 0
                       (new_key parent_key separator key) separator flattened [] of
                  (h1, Ok (flattened', to_remove)) \<Rightarrow>
                    (case del_indices_st h1 (length h) to_remove of
                       (h2, Ok u) \<Rightarrow>
                         flatten_items_st depth h2 rest parent_key separator
                           (flattened' @ [(new_key parent_key separator key, Addr (length h))])
                     | (h2, Raise e) \<Rightarrow> (h2, Raise e)
                     | (h2, Unmodelled) \<Rightarrow> (h2, Unmodelled))
                | (h1, Raise e) \<Rightarrow> (h1, Raise e)
                | (h1, Unmodelled) \<Rightarrow> (h1, Unmodelled)))
      | _ \<Rightarrow>
          flatten_items_st depth h rest parent_key separator
            (flattened @ [(new_key parent_key separator key, v)]))"
| "flatten_elems_st depth h [] index nk separator flattened to_remove =
     (h, Ok (flattened, to_remove))"
| "flatten_elems_st depth h (val # vals) index nk separator flattened to_remove =
     (case val of
        Addr a \<Rightarrow>
          (case lookup h a of
             None \<Rightarrow> (h, Unmodelled)
           | Some (ODict d) \<Rightarrow>
               (case flatten_dict_st depth h val nk separator of
                  (h1, Ok r) \<Rightarrow>
                    (case r of
                       Addr ra \<Rightarrow>
                         (case lookup h1 ra of
                            Some (ODict sub) \<Rightarrow>
                              flatten_elems_st depth h1 vals (Suc index) nk separator
                                (flattened @ sub) (to_remove @ [index])
                          | _ \<Rightarrow> (h1, Unmodelled))
                     | _ \<Rightarrow> (h1, Unmodelled))
                | (h1, Raise e) \<Rightarrow> (h1, Raise e)
                | (h1, Unmodelled) \<Rightarrow> (h1, Unmodelled))
           | Some (OList l) \<Rightarrow>
               flatten_elems_st depth h vals (Suc index) nk separator flattened to_remove)
      | _ \<Rightarrow> flatten_elems_st depth h vals (Suc index) nk separator flattened to_remove)"
  by pat_completeness auto
termination
  by (relation "measures
        [\<lambda>x. case x of Inl (d, _) \<Rightarrow> 3 * d
                     | Inr (Inl (d, _)) \<Rightarrow> 3 * d + 2
                     | Inr (Inr (d, _)) \<Rightarrow> 3 * d + 1,
         \<lambda>x. case x of Inl _ \<Rightarrow> 0
                     | Inr (Inl (d, h, items, _)) \<Rightarrow> length items
                     | Inr (Inr (d, h, vals, _)) \<Rightarrow> length vals]")
     auto



lemma del_indices_st_frame:
  "del_indices_st h a is = (h', r) \<Longrightarrow> n \<le> a \<Longrightarrow> take n h' = take n h"
proof (induction h a "is" arbitrary: h' r rule: del_indices_st.induct)
  case (1 h a)
  then show ?case by simp
next
  case (2 h a i "is")
  show ?case
  proof (cases "lookup h a")
    case None
    with 2 show ?thesis by simp
  next
    case (Some ob)
    show ?thesis
    proof (cases ob)
      case (OList l)
      show ?thesis
      proof (cases "i < length l")
        case True
        have "take n h' = take n (h[a := OList (take i l @ drop (Suc i) l)])"
          using 2(1) [OF Some OList True _ 2(3)] 2(2) Some OList True by simp
        then show ?thesis using 2(3) by simp
      next
        case False
        with 2 Some OList show ?thesis by simp
      qed
    next
      case (ODict d)
      with 2 Some show ?thesis by simp
    qed
  qed
qed


lemma prefix_take_eq: "take (length h) h2 = h \<Longrightarrow> prefix h h2"
  by (metis take_is_prefix)

lemma prefix_after_del:
  assumes "prefix (h @ [ob]) h1" and "del_indices_st h1 (length h) is = (h2, r)"
  shows "prefix h h2"
proof -
  have "take (length h) h2 = take (length h) h1"
    using del_indices_st_frame [OF assms(2), of "length h"] by simp
  also have "\<dots> = h"
    using assms(1) by (auto simp: prefix_def)
  finally show ?thesis by (rule prefix_take_eq)
qed

lemma flatten_st_frame:
  "prefix h (fst (flatten_dict_st depth h nested_dict parent_key separator))"
  "prefix h (fst (flatten_items_st depth h items parent_key separator flattened))"
  "prefix h (fst (flatten_elems_st depth h vals index nk separator flattened to_remove))"
proof (induction depth h nested_dict parent_key separator
         and depth h items parent_key separator flattened
         and depth h vals index nk separator flattened to_remove
       rule: flatten_dict_st_flatten_items_st_flatten_elems_st.induct)
  case (1 h nested_dict parent_key separator)
  then show ?case by simp
next
  case (2 depth h nested_dict parent_key separator)
  show ?case
  proof (cases nested_dict)
    case (Addr a)
    show ?thesis
    proof (cases "lookup h a")
      case None
      with Addr show ?thesis by simp
    next
      case (Some ob)
      show ?thesis
      proof (cases ob)
        case (OList l)
        with Addr Some show ?thesis by simp
      next
        case (ODict items)
        obtain h' r where r: "flatten_items_st depth h items parent_key separator [] = (h', r)"
          by force
        have "prefix h h'"
          using 2 [OF Addr Some ODict] r by simp
        then have "prefix h (h' @ [ODict (st_dict fl)])" for fl
          by (rule prefix_prefix)
        with \<open>prefix h h'\<close> Addr Some ODict r show ?thesis
          by (cases r) simp_all
      qed
    qed
  qed simp_all
next
  case (3 depth h parent_key separator flattened)
  then show ?case by simp
next
  case (4 depth h key v rest parent_key separator flattened)
  show ?case
  proof (cases v)
    case (Addr a)
    show ?thesis
    proof (cases "lookup h a")
      case None
      with Addr show ?thesis by simp
    next
      case (Some ob)
      show ?thesis
      proof (cases ob)
        case (ODict d)
        obtain h1 r where r: "flatten_dict_st depth h v (new_key parent_key separator key) separator = (h1, r)"
          by force
        have p1: "prefix h h1"
          using 4(7) [OF Addr Some ODict] r by simp
        show ?thesis
        proof (cases r)
          case (Ok rr)
          show ?thesis
          proof (cases rr)
            case (Addr ra)
            show ?thesis
            proof (cases "lookup h1 ra")
              case None
              with p1 r Ok Addr \<open>v = Addr a\<close> Some ODict show ?thesis by simp
            next
              case (Some ob1)
              show ?thesis
              proof (cases ob1)
                case (OList l1)
                with p1 r Ok Addr \<open>v = Addr a\<close> \<open>lookup h a = Some ob\<close> ODict Some
                show ?thesis by simp
              next
                case (ODict sub)
                have "prefix h1 (fst (flatten_items_st depth h1 rest parent_key separator (flattened @ sub)))"
                  using 4(8) [OF \<open>v = Addr a\<close> \<open>lookup h a = Some ob\<close> \<open>ob = ODict d\<close> r [symmetric] Ok Addr Some ODict] .
                with p1 r Ok Addr \<open>v = Addr a\<close> \<open>lookup h a = Some ob\<close> \<open>ob = ODict d\<close> Some ODict
                show ?thesis by (auto intro: prefix_order.trans)
              qed
            qed
          qed (use p1 r Ok \<open>v = Addr a\<close> Some ODict in simp_all)
        qed (use p1 r \<open>v = Addr a\<close> Some ODict in simp_all)
      next
        case (OList l)
        let ?h0 = "h @ [OList l]"
        obtain h1 r where r: "flatten_elems_st depth ?h0 l 0 (new_key parent_key separator key) separator flattened [] = (h1, r)"
          by force
        have p1: "prefix ?h0 h1"
          using 4(5) [OF Addr Some OList] r by simp
        then have p1': "prefix h h1"
          using append_prefixD by blast
        show ?thesis
        proof (cases r)
          case (Ok pr)
          obtain flattened' tr where pr: "pr = (flattened', tr)" by force
          obtain h2 u where u: "del_indices_st h1 (length h) tr = (h2, u)" by force
          have p2: "prefix h h2"
            using prefix_after_del [OF p1 u] .
          show ?thesis
          proof (cases u)
            case (Ok uu)
            have "prefix h2 (fst (flatten_items_st depth h2 rest parent_key separator
                           (flattened' @ [(new_key parent_key separator key, Addr (length h))])))"
              using 4(6) [OF Addr Some OList r [symmetric] \<open>r = Ok pr\<close> pr [symmetric] u [symmetric] Ok] .
            with p2 r \<open>r = Ok pr\<close> pr u Ok Addr Some OList show ?thesis
              by (auto intro: prefix_order.trans)
          qed (use p2 r \<open>r = Ok pr\<close> pr u Addr Some OList in simp_all)
        qed (use p1' r Addr Some OList in simp_all)
      qed
    qed
  qed (use 4 in simp_all)
next
  case (5 depth h index nk separator flattened to_remove)
  then show ?case by simp
next
  case (6 depth h val vals index nk separator flattened to_remove)
  show ?case
  proof (cases val)
    case (Addr a)
    show ?thesis
    proof (cases "lookup h a")
      case None
      with Addr show ?thesis by simp
    next
      case (Some ob)
      show ?thesis
      proof (cases ob)
        case (OList l)
        with 6(5) Addr Some show ?thesis by simp
      next
        case (ODict d)
        obtain h1 r where r: "flatten_dict_st depth h val nk separator = (h1, r)"
          by force
        have p1: "prefix h h1"
          using 6(6) [OF Addr Some ODict] r by simp
        show ?thesis
        proof (cases r)
          case (Ok rr)
          show ?thesis
          proof (cases rr)
            case (Addr ra)
            show ?thesis
            proof (cases "lookup h1 ra")
              case None
              with p1 r Ok Addr \<open>val = Addr a\<close> Some ODict show ?thesis by simp
            next
              case (Some ob1)
              show ?thesis
              proof (cases ob1)
                case (OList l1)
                with p1 r Ok Addr \<open>val = Addr a\<close> \<open>lookup h a = Some ob\<close> ODict Some
                show ?thesis by simp
              next
                case (ODict sub)
                have "prefix h1 (fst (flatten_elems_st depth h1 vals (Suc index) nk separator
                                       (flattened @ sub) (to_remove @ [index])))"
                  using 6(7) [OF \<open>val = Addr a\<close> \<open>lookup h a = Some ob\<close> \<open>ob = ODict d\<close>
                      r [symmetric] Ok Addr Some ODict] .
                with p1 r Ok Addr \<open>val = Addr a\<close> \<open>lookup h a = Some ob\<close> \<open>ob = ODict d\<close>
                  Some ODict
                show ?thesis by (auto intro: prefix_order.trans)
              qed
            qed
          qed (use p1 r Ok \<open>val = Addr a\<close> Some ODict in simp_all)
        qed (use p1 r \<open>val = Addr a\<close> Some ODict in simp_all)
      qed
    qed
  qed (use 6 in simp_all)
qed


text \<open>
  The record \<^verbatim>\<open>{"a": [1, {"b": 2}]}\<close> at address 0: the call adds the copy of the list
  (address 3, after the deletion \<^verbatim>\<open>[1]\<close>), the flattened inner record (address 4) and
  the result (address 5), whose items are those of the value-level \<open>flatten_dict\<close>.
  With two records in the list the second deletion is out of range, as at the value
  level: the copy (address 4) has lost its first element, the list itself (address
  1) has not. A record that contains itself ends in RecursionError.
\<close>

lemma flatten_dict_st_example:
  "flatten_dict_st 3
     [ODict [(''a'', Addr 1)], OList [RInt 1, Addr 2], ODict [(''b'', RInt 2)]] (Addr 0) [] ''.''
   = ([ODict [(''a'', Addr 1)], OList [RInt 1, Addr 2], ODict [(''b'', RInt 2)],
       OList [RInt 1], ODict [(''a.b'', RInt 2)], ODict [(''a.b'', RInt 2), (''a'', Addr 3)]],
      Ok (Addr 5))"
  "flatten_dict_st 3
     [ODict [(''a'', Addr 1)], OList [Addr 2, Addr 3], ODict [(''b'', RInt 1)],
      ODict [(''c'', RInt 2)]] (Addr 0) [] ''.''
   = ([ODict [(''a'', Addr 1)], OList [Addr 2, Addr 3], ODict [(''b'', RInt 1)],
       ODict [(''c'', RInt 2)], OList [Addr 3], ODict [(''a.b'', RInt 1)],
       ODict [(''a.c'', RInt 2)]],
      Raise IndexError)"
  "flatten_dict_st 3 [ODict [(''a'', Addr 0)]] (Addr 0) [] ''.''
   = ([ODict [(''a'', Addr 0)]], Raise RecursionError)"
  by code_simp+

text \<open>
  C9: \<open>flatten_dict\<close> never mutates its input. Whatever the store, the argument, the
  keys and the allowed depth, and whether the call returns or raises, the store
  after the call starts with the store before it: the record, every dictionary and
  every list that existed before the call is still at its address with the same
  content. The deletions only reach the copies, which are appended by the call.
\<close>

theorem flatten_dict_st_input_unchanged:
  "prefix h (fst (flatten_dict_st depth h nested_dict parent_key separator))"
  by (rule flatten_st_frame(1))

end
